theory Spec2Isabelle
  imports Main "HOL-Library.Multiset"
begin

section \<open>JavaScript values\<close>

text \<open>
  The server (\<^verbatim>\<open>migratePostsIfNeeded\<close>, \<^verbatim>\<open>extractPlainTextFromBlocks\<close>,
  \<^verbatim>\<open>ensureUniqueId\<close>) and the editor (\<^verbatim>\<open>createBlock\<close>, \<^verbatim>\<open>handleDragEnd\<close>, the
  column-count handler of \<^verbatim>\<open>ColumnsBlock\<close>) work on untyped JavaScript values: what
  \<^verbatim>\<open>JSON.parse\<close> returns, plus \<^verbatim>\<open>undefined\<close>. An object is the list of its own
  properties in enumeration order. Numbers are integers (the code never computes with
  the numbers of a document; a number with a fraction has no value here); strings are
  lists of code units below 256.
\<close>

datatype jsval =
    JUndef
  | JNull
  | JBool bool
  | JNum int
  | JStr string
  | JArr "jsval list"
  | JObj "(string \<times> jsval) list"

type_synonym obj = "(string \<times> jsval) list"

text \<open>What a call throws: the two exceptions the modelled code can raise.\<close>

datatype error = TypeError | RangeError

text \<open>Truthiness, as \<^verbatim>\<open>if (v)\<close>, \<^verbatim>\<open>!v\<close> and \<^verbatim>\<open>v || w\<close> read a value.\<close>

fun truthy :: "jsval \<Rightarrow> bool" where
  "truthy JUndef = False"
| "truthy JNull = False"
| "truthy (JBool b) = b"
| "truthy (JNum n) = (n \<noteq> 0)"
| "truthy (JStr s) = (s \<noteq> [])"
| "truthy (JArr xs) = True"
| "truthy (JObj kvs) = True"

fun isArray :: "jsval \<Rightarrow> bool" where
  "isArray (JArr xs) = True"
| "isArray v = False"

text \<open>
  \<^verbatim>\<open>v.k\<close> on a value that is neither \<^verbatim>\<open>null\<close> nor \<^verbatim>\<open>undefined\<close>, for the property
  names the code reads (\<^verbatim>\<open>id\<close>, \<^verbatim>\<open>type\<close>, \<^verbatim>\<open>content\<close>, \<^verbatim>\<open>blocks\<close>, \<^verbatim>\<open>children\<close>,
  \<^verbatim>\<open>posts\<close>): an object gives its own property, anything else \<^verbatim>\<open>undefined\<close> (none of
  these names is inherited from a prototype).
\<close>

fun getprop :: "jsval \<Rightarrow> string \<Rightarrow> jsval" where
  "getprop (JObj kvs) k = (case map_of kvs k of None \<Rightarrow> JUndef | Some v \<Rightarrow> v)"
| "getprop v k = JUndef"

text \<open>
  \<^verbatim>\<open>v.k\<close> on any value: reading a property of \<^verbatim>\<open>null\<close> or \<^verbatim>\<open>undefined\<close> throws.
\<close>

definition readprop :: "jsval \<Rightarrow> string \<Rightarrow> error + jsval" where
  "readprop v k = (if v = JUndef \<or> v = JNull then Inl TypeError else Inr (getprop v k))"

text \<open>
  \<^verbatim>\<open>o.k = v\<close>, and a property \<^verbatim>\<open>k: v\<close> after a spread in an object literal: an
  existing property keeps its place, a new one goes last.
\<close>

fun set_prop :: "string \<Rightarrow> jsval \<Rightarrow> obj \<Rightarrow> obj" where
  "set_prop k v [] = [(k, v)]"
| "set_prop k v ((k', v') # kvs) =
     (if k' = k then (k, v) # kvs else (k', v') # set_prop k v kvs)"

text \<open>Decimal numerals, as \<^verbatim>\<open>String(n)\<close> and a template literal print an integer.\<close>

definition digit :: "nat \<Rightarrow> char" where
  "digit d = char_of (48 + d)"

fun show_nat :: "nat \<Rightarrow> string" where
  "show_nat n = (if n < 10 then [digit n] else show_nat (n div 10) @ [digit (n mod 10)])"

definition show_int :: "int \<Rightarrow> string" where
  "show_int i = (if i < 0 then CHR ''-'' # show_nat (nat (- i)) else show_nat (nat i))"

text \<open>
  The spread \<^verbatim>\<open>{ ...v }\<close>: the own enumerable properties of \<^verbatim>\<open>v\<close>. An array and a
  string spread their elements under the index as key; \<^verbatim>\<open>null\<close>, \<^verbatim>\<open>undefined\<close>,
  numbers and booleans spread nothing.
\<close>

fun spread :: "jsval \<Rightarrow> obj" where
  "spread (JObj kvs) = kvs"
| "spread (JArr xs) = zip (map show_nat [0..<length xs]) xs"
| "spread (JStr s) = zip (map show_nat [0..<length s]) (map (\<lambda>c. JStr [c]) s)"
| "spread v = []"

text \<open>The first error of a list of results, or all their values.\<close>

fun collect :: "(error + 'a) list \<Rightarrow> error + 'a list" where
  "collect [] = Inr []"
| "collect (r # rs) =
     (case r of
        Inl e \<Rightarrow> Inl e
      | Inr x \<Rightarrow> (case collect rs of Inl e \<Rightarrow> Inl e | Inr xs \<Rightarrow> Inr (x # xs)))"

text \<open>\<^verbatim>\<open>lines.join(sep)\<close> on an array of strings.\<close>

fun join_with :: "string \<Rightarrow> string list \<Rightarrow> string" where
  "join_with sep [] = []"
| "join_with sep [l] = l"
| "join_with sep (l # l' # ls) = l @ sep @ join_with sep (l' # ls)"

text \<open>
  \<^verbatim>\<open>String(v)\<close>. An array prints its elements joined by commas, \<^verbatim>\<open>null\<close> and
  \<^verbatim>\<open>undefined\<close> elements as the empty string. An object prints as
  \<^verbatim>\<open>[object Object]\<close> through the inherited \<^verbatim>\<open>toString\<close>; an own property
  \<^verbatim>\<open>toString\<close> (never callable in parsed JSON) hides it, and the conversion throws.
  A number prints as its decimal numeral. That is what \<^verbatim>\<open>String\<close> prints for the safe
  integers, of magnitude below \<open>2^53\<close>; a larger number prints rounded to its
  significant digits, and from \<open>10^21\<close> on in exponent notation, so the equation for
  \<open>JNum\<close> is \<^verbatim>\<open>String\<close> on the values that \<open>safe_numbers\<close> below admits, and
  a statement about the printed form of a number carries that hypothesis.
\<close>

fun String_js :: "jsval \<Rightarrow> error + string" where
  "String_js JUndef = Inr ''undefined''"
| "String_js JNull = Inr ''null''"
| "String_js (JBool b) = Inr (if b then ''true'' else ''false'')"
| "String_js (JNum n) = Inr (show_int n)"
| "String_js (JStr s) = Inr s"
| "String_js (JArr xs) =
     (case collect (map (\<lambda>x. if x = JUndef \<or> x = JNull then Inr [] else String_js x) xs) of
        Inl e \<Rightarrow> Inl e
      | Inr ss \<Rightarrow> Inr (join_with '','' ss))"
| "String_js (JObj kvs) =
     (if map_of kvs ''toString'' \<noteq> None then Inl TypeError else Inr ''[object Object]'')"

text \<open>
  The values whose numbers \<^verbatim>\<open>String\<close> prints in decimal: every number that the
  conversion reaches (the value itself, or an element of an array at any depth) is a
  safe integer. The conversion never prints what an object holds.
\<close>

fun safe_numbers :: "jsval \<Rightarrow> bool" where
  "safe_numbers (JNum n) = (\<bar>n\<bar> < 2 ^ 53)"
| "safe_numbers (JArr xs) = (\<forall>x\<in>set xs. safe_numbers x)"
| "safe_numbers v = True"

section \<open>Block factory\<close>

text \<open>
  \<^verbatim>\<open>createBlock(type)\<close>. The id is \<^verbatim>\<open>Date.now() + Math.random()\<close>, a value the
  environment supplies: the parameter \<open>fresh\<close>. The \<^verbatim>\<open>switch\<close> compares with \<^verbatim>\<open>===\<close>;
  its \<^verbatim>\<open>default\<close> returns the base object. No branch throws.
\<close>

definition createBlock :: "jsval \<Rightarrow> jsval \<Rightarrow> error + jsval" where
  "createBlock fresh ty =
     (let base = [(''id'', fresh), (''type'', ty), (''size'', JStr ''full'')] in
      if ty = JStr ''heading'' then
        Inr (JObj (set_prop ''level'' (JNum 2) (set_prop ''content'' (JStr '''') base)))
      else if ty = JStr ''paragraph'' then
        Inr (JObj (set_prop ''content'' (JStr '''') base))
      else if ty = JStr ''image'' then
        Inr (JObj (set_prop ''alt'' (JStr '''') (set_prop ''url'' (JStr '''') base)))
      else if ty = JStr ''columns'' then
        Inr (JObj (set_prop ''children'' (JArr [JArr [], JArr []])
                    (set_prop ''columns'' (JNum 2) base)))
      else if ty = JStr ''grid'' then
        Inr (JObj (set_prop ''children'' (JArr [])
                    (set_prop ''gap'' (JNum 16) (set_prop ''cols'' (JNum 3) base))))
      else Inr (JObj base))"

text \<open>
  C8. For each of the five variant tags the factory returns a block with the generated
  id, the tag, size \<^verbatim>\<open>full\<close> and the defaults of the variant: a heading has empty
  content and level 2; a paragraph empty content; an image empty url and alt; a columns
  block has column count 2 (the property \<^verbatim>\<open>columns\<close>) and two empty columns; a grid has
  3 columns (the property \<^verbatim>\<open>cols\<close>), gap 16 and no children.
\<close>

theorem createBlock_defaults:
  "createBlock i (JStr ''heading'') =
     Inr (JObj [(''id'', i), (''type'', JStr ''heading''), (''size'', JStr ''full''),
                (''content'', JStr ''''), (''level'', JNum 2)])
   \<and> createBlock i (JStr ''paragraph'') =
     Inr (JObj [(''id'', i), (''type'', JStr ''paragraph''), (''size'', JStr ''full''),
                (''content'', JStr '''')])
   \<and> createBlock i (JStr ''image'') =
     Inr (JObj [(''id'', i), (''type'', JStr ''image''), (''size'', JStr ''full''),
                (''url'', JStr ''''), (''alt'', JStr '''')])
   \<and> createBlock i (JStr ''columns'') =
     Inr (JObj [(''id'', i), (''type'', JStr ''columns''), (''size'', JStr ''full''),
                (''columns'', JNum 2), (''children'', JArr [JArr [], JArr []])])
   \<and> createBlock i (JStr ''grid'') =
     Inr (JObj [(''id'', i), (''type'', JStr ''grid''), (''size'', JStr ''full''),
                (''cols'', JNum 3), (''gap'', JNum 16), (''children'', JArr [])])"
  by (simp add: createBlock_def)

text \<open>
  C3, as the code has it. A type that is none of the five tags does not fail: the
  \<^verbatim>\<open>default\<close> branch returns the base block, carrying only the id, the given type and
  size \<^verbatim>\<open>full\<close>.
\<close>

theorem createBlock_unknown_type:
  assumes "ty \<notin> {JStr ''heading'', JStr ''paragraph'', JStr ''image'', JStr ''columns'',
                  JStr ''grid''}"
  shows "createBlock i ty = Inr (JObj [(''id'', i), (''type'', ty), (''size'', JStr ''full'')])"
  using assms by (simp add: createBlock_def)

theorem createBlock_unknown_type_witness:
  "createBlock (JNum 7) (JStr ''video'') =
     Inr (JObj [(''id'', JNum 7), (''type'', JStr ''video''), (''size'', JStr ''full'')])"
  using createBlock_unknown_type [of "JStr ''video''" "JNum 7"] by simp

text \<open>
  The claim C3 itself fails: asked for the unknown type \<^verbatim>\<open>video\<close>, the factory raises
  no error and hands back a block.
\<close>

theorem createBlock_unknown_counterexample:
  "createBlock (JNum 1) (JStr ''video'') =
     Inr (JObj [(''id'', JNum 1), (''type'', JStr ''video''), (''size'', JStr ''full'')])
   \<and> \<not> isl (createBlock (JNum 1) (JStr ''video''))"
  by (simp add: createBlock_def)

section \<open>Plain text of a block tree\<close>

text \<open>
  \<^verbatim>\<open>xs.forEach(f)\<close> where \<open>f\<close> updates a state and may throw: the elements in order,
  stopping at the first exception.
\<close>

fun forEach :: "('a \<Rightarrow> 's \<Rightarrow> error + 's) \<Rightarrow> 'a list \<Rightarrow> 's \<Rightarrow> error + 's" where
  "forEach f [] s = Inr s"
| "forEach f (x # xs) s = (case f x s of Inl e \<Rightarrow> Inl e | Inr s' \<Rightarrow> forEach f xs s')"

lemma forEach_cong [fundef_cong]:
  "xs = ys \<Longrightarrow> s = t \<Longrightarrow> (\<And>x a. x \<in> set ys \<Longrightarrow> f x a = g x a) \<Longrightarrow>
   forEach f xs s = forEach g ys t"
  by (induction ys arbitrary: xs s t) (auto split: sum.splits)

text \<open>The elements of an array (read only behind \<^verbatim>\<open>Array.isArray\<close>).\<close>

fun elems :: "jsval \<Rightarrow> jsval list" where
  "elems (JArr xs) = xs"
| "elems v = []"

lemma size_map_of:
  "map_of kvs k = Some v \<Longrightarrow> size v < Suc (size_list (size_prod (\<lambda>_. 0) size) kvs)"
  by (induction kvs) (auto split: if_splits)

lemma size_elems: "x \<in> set (elems v) \<Longrightarrow> size x < size v"
proof (cases v)
  case (JArr xs)
  assume "x \<in> set (elems v)"
  with JArr have "x \<in> set xs" by simp
  then have "size x < Suc (size_list size xs)"
    by (induction xs) auto
  with JArr show ?thesis by simp
qed simp_all

lemma size_getprop_elems:
  assumes "x \<in> set (elems (getprop node k))"
  shows "size x < size node"
proof (cases node)
  case (JObj kvs)
  show ?thesis
  proof (cases "map_of kvs k")
    case None
    with JObj assms show ?thesis by simp
  next
    case (Some v)
    then have "size v < Suc (size_list (size_prod (\<lambda>_. 0) size) kvs)"
      by (rule size_map_of)
    moreover have "size x < size v"
      using assms JObj Some by (simp add: size_elems)
    ultimately show ?thesis
      using JObj by simp
  qed
qed (use assms in simp_all)

text \<open>
  The closure \<^verbatim>\<open>walk\<close> of \<^verbatim>\<open>extractPlainTextFromBlocks\<close>; the array \<^verbatim>\<open>lines\<close> it
  pushes to is passed in and returned. A falsy node adds nothing; an array is walked
  element by element; a heading or a paragraph pushes \<^verbatim>\<open>String(node.content)\<close> when
  its content is truthy; a columns block walks every child that is an array; a grid
  walks its children; any other node adds nothing.
\<close>

function walk :: "jsval \<Rightarrow> string list \<Rightarrow> error + string list" where
  "walk node lines =
     (if \<not> truthy node then Inr lines
      else if isArray node then forEach walk (elems node) lines
      else if getprop node ''type'' = JStr ''heading''
              \<or> getprop node ''type'' = JStr ''paragraph'' then
        (if truthy (getprop node ''content'') then
           (case String_js (getprop node ''content'') of
              Inl e \<Rightarrow> Inl e
            | Inr s \<Rightarrow> Inr (lines @ [s]))
         else Inr lines)
      else if getprop node ''type'' = JStr ''columns'' then
        (if isArray (getprop node ''children'') then
           forEach (\<lambda>col ls. if isArray col then forEach walk (elems col) ls else Inr ls)
             (elems (getprop node ''children'')) lines
         else Inr lines)
      else if getprop node ''type'' = JStr ''grid'' then
        (if isArray (getprop node ''children'') then
           forEach walk (elems (getprop node ''children'')) lines
         else Inr lines)
      else Inr lines)"
  by pat_completeness auto
termination
proof (relation "measure (\<lambda>(node, lines). size node)")
  fix node :: jsval and x col
  assume "col \<in> set (elems (getprop node ''children''))" and "x \<in> set (elems col)"
  then have "size x < size col" and "size col < size node"
    by (simp_all add: size_elems size_getprop_elems)
  then show "\<And>ls lines. ((x, ls), node, lines) \<in> measure (\<lambda>(node, lines). size node)"
    by simp
qed (simp_all add: size_elems size_getprop_elems)

declare walk.simps [simp del]

definition extractPlainTextFromBlocks :: "jsval \<Rightarrow> error + string" where
  "extractPlainTextFromBlocks blocks =
     (case walk blocks [] of
        Inl e \<Rightarrow> Inl e
      | Inr lines \<Rightarrow> Inr (join_with [CHR 0x0A] lines))"

text \<open>
  The content string of a heading or paragraph node: \<open>Some c\<close> when the node has type
  \<^verbatim>\<open>heading\<close> or \<^verbatim>\<open>paragraph\<close> and its content is the string \<open>c\<close>.
\<close>

definition text_content :: "jsval \<Rightarrow> string option" where
  "text_content node =
     (if getprop node ''type'' = JStr ''heading'' \<or> getprop node ''type'' = JStr ''paragraph''
      then (case getprop node ''content'' of JStr c \<Rightarrow> Some c | _ \<Rightarrow> None)
      else None)"

text \<open>A paragraph block, for the examples.\<close>

definition para_block :: "int \<Rightarrow> string \<Rightarrow> jsval" where
  "para_block i c =
     JObj [(''id'', JNum i), (''type'', JStr ''paragraph''), (''size'', JStr ''full''),
           (''content'', JStr c)]"

lemma walk_text_node:
  assumes "text_content node = Some c"
  shows "walk node lines = Inr (if c = [] then lines else lines @ [c])"
proof -
  from assms have ty: "getprop node ''type'' = JStr ''heading''
      \<or> getprop node ''type'' = JStr ''paragraph''"
    and c: "getprop node ''content'' = JStr c"
    by (auto simp: text_content_def split: if_splits jsval.splits)
  from ty obtain kvs where "node = JObj kvs"
    by (cases node) auto
  then have "truthy node" "\<not> isArray node" by simp_all
  with ty c show ?thesis
    by (subst walk.simps) simp
qed

lemma forEach_walk_text:
  "map text_content nodes = map Some cs \<Longrightarrow>
   forEach walk nodes lines = Inr (lines @ filter (\<lambda>c. c \<noteq> []) cs)"
proof (induction nodes arbitrary: cs lines)
  case Nil
  then show ?case by simp
next
  case (Cons node nodes)
  then obtain c cs' where cs: "cs = c # cs'" "text_content node = Some c"
    "map text_content nodes = map Some cs'"
    by (cases cs) auto
  show ?case
    using Cons.IH [OF cs(3)] by (simp add: cs walk_text_node)
qed

lemma join_with_last:
  "ls \<noteq> [] \<Longrightarrow> last ls \<noteq> [] \<Longrightarrow>
   join_with sep ls \<noteq> [] \<and> last (join_with sep ls) = last (last ls)"
  by (induction sep ls rule: join_with.induct) auto

text \<open>
  C2, as the code has it. Over a sequence of heading and paragraph nodes with content
  strings \<open>cs\<close>, the extractor returns the non-empty contents, each verbatim, joined by
  one newline: a node with empty content adds no line (the guard
  \<^verbatim>\<open>if (node.content)\<close>). Nothing follows the last line: when there is a line at all,
  the result ends with the last character of the last non-empty content.
\<close>

theorem extract_text_nodes:
  assumes "map text_content nodes = map Some cs"
  shows "extractPlainTextFromBlocks (JArr nodes) =
           Inr (join_with [CHR 0x0A] (filter (\<lambda>c. c \<noteq> []) cs))
         \<and> (filter (\<lambda>c. c \<noteq> []) cs \<noteq> [] \<longrightarrow>
              last (join_with [CHR 0x0A] (filter (\<lambda>c. c \<noteq> []) cs))
                = last (last (filter (\<lambda>c. c \<noteq> []) cs)))"
proof -
  have "walk (JArr nodes) [] = forEach walk nodes []"
    by (subst walk.simps) simp
  then have "extractPlainTextFromBlocks (JArr nodes) =
      Inr (join_with [CHR 0x0A] (filter (\<lambda>c. c \<noteq> []) cs))"
    using forEach_walk_text [OF assms, of "[]"] by (simp add: extractPlainTextFromBlocks_def)
  moreover have "last (join_with [CHR 0x0A] (filter (\<lambda>c. c \<noteq> []) cs))
      = last (last (filter (\<lambda>c. c \<noteq> []) cs))"
    if ne: "filter (\<lambda>c. c \<noteq> []) cs \<noteq> []"
  proof -
    have "last (filter (\<lambda>c. c \<noteq> []) cs) \<in> set (filter (\<lambda>c. c \<noteq> []) cs)"
      using ne by (rule last_in_set)
    then have "last (filter (\<lambda>c. c \<noteq> []) cs) \<noteq> []" by simp
    with ne show ?thesis by (simp add: join_with_last)
  qed
  ultimately show ?thesis by blast
qed

theorem extract_text_nodes_witness:
  "extractPlainTextFromBlocks (JArr [para_block 1 ''ab'', para_block 2 '''', para_block 3 ''c'']) =
     Inr (''ab'' @ [CHR 0x0A] @ ''c'')"
  using extract_text_nodes [of "[para_block 1 ''ab'', para_block 2 '''', para_block 3 ''c'']"
      "[''ab'', '''', ''c'']"]
  by (simp add: text_content_def para_block_def)

text \<open>
  The claim C2 itself fails: a paragraph with empty content between two others leaves
  no empty line in the output.
\<close>

theorem extract_empty_content_counterexample:
  "extractPlainTextFromBlocks (JArr [para_block 1 ''a'', para_block 2 '''', para_block 3 ''b'']) =
     Inr (''a'' @ [CHR 0x0A] @ ''b'')
   \<and> extractPlainTextFromBlocks (JArr [para_block 1 ''a'', para_block 2 '''', para_block 3 ''b''])
       \<noteq> Inr (''a'' @ [CHR 0x0A] @ [CHR 0x0A] @ ''b'')"
  by (simp add: extractPlainTextFromBlocks_def para_block_def walk.simps)

subsection \<open>When the extractor returns\<close>

text \<open>
  A value is printable when no object in it, at any depth, has an own property
  \<^verbatim>\<open>toString\<close>: then \<^verbatim>\<open>String\<close> converts it.
\<close>

fun printable :: "jsval \<Rightarrow> bool" where
  "printable (JArr xs) = (\<forall>x\<in>set xs. printable x)"
| "printable (JObj kvs) =
     (map_of kvs ''toString'' = None \<and> (\<forall>(k, v)\<in>set kvs. printable v))"
| "printable v = True"

lemma collect_all_Inr:
  "\<forall>r\<in>set rs. \<exists>x. r = Inr x \<Longrightarrow> \<exists>xs. collect rs = Inr xs"
  by (induction rs) auto

lemma String_js_printable: "printable v \<Longrightarrow> \<exists>s. String_js v = Inr s"
proof (induction v rule: String_js.induct)
  case (6 xs)
  have "\<forall>r\<in>set (map (\<lambda>x. if x = JUndef \<or> x = JNull then Inr [] else String_js x) xs).
      \<exists>s. r = Inr s"
    using 6 by auto
  then obtain ss where
    "collect (map (\<lambda>x. if x = JUndef \<or> x = JNull then Inr [] else String_js x) xs) = Inr ss"
    using collect_all_Inr by blast
  then show ?case by simp
qed simp_all

lemma printable_getprop: "printable node \<Longrightarrow> printable (getprop node k)"
  by (cases node) (auto split: option.splits dest: map_of_SomeD)

lemma printable_elems: "printable v \<Longrightarrow> x \<in> set (elems v) \<Longrightarrow> printable x"
  by (cases v) auto

lemma forEach_total:
  "\<forall>x\<in>set xs. \<forall>s. \<exists>s'. f x s = Inr s' \<Longrightarrow> \<exists>s'. forEach f xs s = Inr s'"
proof (induction xs arbitrary: s)
  case Nil
  then show ?case by simp
next
  case (Cons x xs)
  from Cons.prems have "\<exists>s'. f x s = Inr s'" by simp
  then obtain s1 where s1: "f x s = Inr s1" ..
  from Cons.prems have "\<forall>x\<in>set xs. \<forall>s. \<exists>s'. f x s = Inr s'" by simp
  from Cons.IH [OF this] obtain s2 where "forEach f xs s1 = Inr s2" ..
  with s1 show ?case by simp
qed

text \<open>
  On a printable tree the walk, and so the extractor, returns: nothing it converts throws.
\<close>

lemma walk_printable: "printable node \<Longrightarrow> \<exists>ls. walk node lines = Inr ls"
proof (induction node lines rule: walk.induct)
  case (1 node lines)
  note pl = \<open>printable node\<close>
  show ?case
  proof (cases "truthy node")
    case False
    then show ?thesis by (subst walk.simps) simp
  next
    case tr: True
    then have ntr: "\<not> \<not> truthy node" by simp
    show ?thesis
    proof (cases "isArray node")
      case True
      have "\<forall>x\<in>set (elems node). \<forall>s. \<exists>s'. walk x s = Inr s'"
        using "1.IH"(1) [OF ntr True] pl by (auto dest: printable_elems)
      from forEach_total [OF this] obtain ls where "forEach walk (elems node) lines = Inr ls" ..
      with tr True show ?thesis by (subst walk.simps) simp
    next
      case na: False
      consider (heading) "getprop node ''type'' = JStr ''heading''
            \<or> getprop node ''type'' = JStr ''paragraph''"
        | (columns) "getprop node ''type'' = JStr ''columns''"
        | (grid) "getprop node ''type'' = JStr ''grid''"
        | (other) "getprop node ''type'' \<noteq> JStr ''heading''"
            "getprop node ''type'' \<noteq> JStr ''paragraph''"
            "getprop node ''type'' \<noteq> JStr ''columns''" "getprop node ''type'' \<noteq> JStr ''grid''"
        by blast
      then show ?thesis
      proof cases
        case heading
        obtain s where "String_js (getprop node ''content'') = Inr s"
          using String_js_printable [OF printable_getprop [OF pl]] by blast
        with tr na heading show ?thesis by (subst walk.simps) auto
      next
        case columns
        let ?g = "\<lambda>col ls. if isArray col then forEach walk (elems col) ls else Inr ls"
        have "\<forall>col\<in>set (elems (getprop node ''children'')). \<forall>s. \<exists>s'. ?g col s = Inr s'"
        proof (intro ballI allI)
          fix col s
          assume col: "col \<in> set (elems (getprop node ''children''))"
          then have arr: "isArray (getprop node ''children'')"
            by (cases "getprop node ''children''") auto
          have pc: "printable col"
            using printable_elems [OF printable_getprop [OF pl] col] .
          have nh: "\<not> (getprop node ''type'' = JStr ''heading''
              \<or> getprop node ''type'' = JStr ''paragraph'')"
            using columns by simp
          have "\<forall>x\<in>set (elems col). \<forall>s. \<exists>s'. walk x s = Inr s'" if "isArray col"
            using "1.IH"(2) [OF ntr na nh columns arr col that] pc
            by (auto dest: printable_elems)
          then show "\<exists>s'. ?g col s = Inr s'"
            using forEach_total [of "elems col" walk s] by (cases "isArray col") simp_all
        qed
        from forEach_total [OF this]
        obtain ls where "forEach ?g (elems (getprop node ''children'')) lines = Inr ls" ..
        with tr na columns show ?thesis by (subst walk.simps) auto
      next
        case grid
        have "\<forall>x\<in>set (elems (getprop node ''children'')). \<forall>s. \<exists>s'. walk x s = Inr s'"
        proof (intro ballI allI)
          fix x s
          assume x: "x \<in> set (elems (getprop node ''children''))"
          then have arr: "isArray (getprop node ''children'')"
            by (cases "getprop node ''children''") auto
          have nh: "\<not> (getprop node ''type'' = JStr ''heading''
              \<or> getprop node ''type'' = JStr ''paragraph'')"
            and nc: "getprop node ''type'' \<noteq> JStr ''columns''"
            using grid by simp_all
          show "\<exists>s'. walk x s = Inr s'"
            using "1.IH"(3) [OF ntr na nh nc grid arr x]
              printable_elems [OF printable_getprop [OF pl] x]
            by simp
        qed
        from forEach_total [OF this]
        obtain ls where "forEach walk (elems (getprop node ''children'')) lines = Inr ls" ..
        with tr na grid show ?thesis by (subst walk.simps) auto
      next
        case other
        with tr na show ?thesis by (subst walk.simps) simp
      qed
    qed
  qed
qed

lemma extract_printable:
  "printable blocks \<Longrightarrow> \<exists>t. extractPlainTextFromBlocks blocks = Inr t"
  using walk_printable [of blocks "[]"] by (auto simp: extractPlainTextFromBlocks_def)

section \<open>Migration of stored posts\<close>

text \<open>
  \<^verbatim>\<open>JSON.parse\<close> is a parameter \<open>parse\<close>: \<open>None\<close> when it throws a syntax error.
  \<^verbatim>\<open>tryParseJson\<close> turns the exception into \<^verbatim>\<open>null\<close>.
\<close>

definition tryParseJson :: "(string \<Rightarrow> jsval option) \<Rightarrow> string \<Rightarrow> jsval" where
  "tryParseJson parse str = (case parse str of None \<Rightarrow> JNull | Some v \<Rightarrow> v)"

text \<open>
  \<^verbatim>\<open>s.trim()\<close> and \<^verbatim>\<open>s.startsWith(p)\<close>. The white space and line terminators below
  code unit 256: tab, line feed, vertical tab, form feed, carriage return, space and
  no-break space.
\<close>

definition is_space :: "char \<Rightarrow> bool" where
  "is_space c \<longleftrightarrow> c \<in> {CHR 0x09, CHR 0x0A, CHR 0x0B, CHR 0x0C, CHR 0x0D, CHR 0x20, CHR 0xA0}"

definition trim :: "string \<Rightarrow> string" where
  "trim s = rev (dropWhile is_space (rev (dropWhile is_space s)))"

definition startsWith :: "string \<Rightarrow> string \<Rightarrow> bool" where
  "startsWith s p \<longleftrightarrow> take (length p) s = p"

fun isString :: "jsval \<Rightarrow> bool" where
  "isString (JStr s) = True"
| "isString v = False"

fun str_of :: "jsval \<Rightarrow> string" where
  "str_of (JStr s) = s"
| "str_of v = []"

text \<open>
  The test \<^verbatim>\<open>typeof post.content === "string" && post.content.trim().startsWith("[")\<close>.
\<close>

definition looks_like_array :: "jsval \<Rightarrow> bool" where
  "looks_like_array content \<longleftrightarrow> isString content \<and> startsWith (trim (str_of content)) ''[''"

text \<open>
  The body of the loop of \<^verbatim>\<open>migratePostsIfNeeded\<close>, on one copied post and the flag
  \<^verbatim>\<open>changed\<close>; both are returned. Its first statement parses a \<^verbatim>\<open>blocks\<close> string.
\<close>

definition migrate_blocks_string ::
    "(string \<Rightarrow> jsval option) \<Rightarrow> obj \<Rightarrow> bool \<Rightarrow> error + (obj \<times> bool)" where
  "migrate_blocks_string parse post changed =
     (if isString (getprop (JObj post) ''blocks'') then
        (let parsed = tryParseJson parse (str_of (getprop (JObj post) ''blocks'')) in
         if isArray parsed then
           (let post1 = set_prop ''blocks'' parsed post in
            if looks_like_array (getprop (JObj post1) ''content'') then
              (case extractPlainTextFromBlocks parsed of
                 Inl e \<Rightarrow> Inl e
               | Inr plain \<Rightarrow> Inr (set_prop ''content'' (JStr plain) post1, True))
            else Inr (post1, True))
         else Inr (post, changed))
      else Inr (post, changed))"

text \<open>Its second statement parses a \<^verbatim>\<open>content\<close> string when \<^verbatim>\<open>blocks\<close> is no array.\<close>

definition migrate_content_json ::
    "(string \<Rightarrow> jsval option) \<Rightarrow> obj \<Rightarrow> bool \<Rightarrow> error + (obj \<times> bool)" where
  "migrate_content_json parse post changed =
     (if \<not> isArray (getprop (JObj post) ''blocks'')
         \<and> looks_like_array (getprop (JObj post) ''content'') then
        (let parsed = tryParseJson parse (str_of (getprop (JObj post) ''content'')) in
         if isArray parsed then
           (case extractPlainTextFromBlocks parsed of
              Inl e \<Rightarrow> Inl e
            | Inr plain \<Rightarrow>
                Inr (set_prop ''content'' (JStr plain) (set_prop ''blocks'' parsed post), True))
         else Inr (post, changed))
      else Inr (post, changed))"

definition migrate_post ::
    "(string \<Rightarrow> jsval option) \<Rightarrow> obj \<Rightarrow> bool \<Rightarrow> error + (obj \<times> bool)" where
  "migrate_post parse post changed =
     (case migrate_blocks_string parse post changed of
        Inl e \<Rightarrow> Inl e
      | Inr (post1, changed1) \<Rightarrow> migrate_content_json parse post1 changed1)"

text \<open>The loop \<^verbatim>\<open>for (const post of out.posts)\<close>: the posts in order, the flag threaded.\<close>

fun migrate_loop ::
    "(string \<Rightarrow> jsval option) \<Rightarrow> obj list \<Rightarrow> bool \<Rightarrow> error + (obj list \<times> bool)" where
  "migrate_loop parse [] changed = Inr ([], changed)"
| "migrate_loop parse (post # posts) changed =
     (case migrate_post parse post changed of
        Inl e \<Rightarrow> Inl e
      | Inr (post', changed') \<Rightarrow>
          (case migrate_loop parse posts changed' of
             Inl e \<Rightarrow> Inl e
           | Inr (posts', changed'') \<Rightarrow> Inr (post' # posts', changed'')))"

text \<open>
  \<^verbatim>\<open>migratePostsIfNeeded(data)\<close>. \<^verbatim>\<open>out\<close> is a shallow copy of \<^verbatim>\<open>data\<close>; its \<^verbatim>\<open>posts\<close>
  become shallow copies of the posts when \<^verbatim>\<open>out.posts\<close> is an array, and the empty
  array otherwise. The loop assigns to the copies only, so \<^verbatim>\<open>data\<close> stays as it was.
  The result is the pair of \<^verbatim>\<open>changed\<close> and \<^verbatim>\<open>out\<close>.
\<close>

definition migratePostsIfNeeded ::
    "(string \<Rightarrow> jsval option) \<Rightarrow> jsval \<Rightarrow> error + (bool \<times> jsval)" where
  "migratePostsIfNeeded parse data =
     (let out = spread data;
          posts = (if isArray (getprop (JObj out) ''posts'')
                   then map spread (elems (getprop (JObj out) ''posts''))
                   else [])
      in case migrate_loop parse posts False of
           Inl e \<Rightarrow> Inl e
         | Inr (posts', changed) \<Rightarrow>
             Inr (changed, JObj (set_prop ''posts'' (JArr (map JObj posts')) out)))"

text \<open>The encoded block sequence of the first end-to-end scenario, and the array it encodes.\<close>

definition hi_json :: string where
  \<open>hi_json = ''[{"id":1,"type":"paragraph","content":"hi"}]''\<close>

definition hi_block :: jsval where
  \<open>hi_block = JObj [(''id'', JNum 1), (''type'', JStr ''paragraph''), (''content'', JStr ''hi'')]\<close>

text \<open>
  A stored document with a canonical, a double-encoded and a pre-block post, and a
  parser that agrees with \<^verbatim>\<open>JSON.parse\<close> on the two encoded texts in it and rejects
  every other text.
\<close>

definition title_json :: string where
  \<open>title_json = ''[{"id":2,"type":"heading","level":2,"content":"Title"}]''\<close>

definition title_block :: jsval where
  \<open>title_block = JObj [(''id'', JNum 2), (''type'', JStr ''heading''), (''level'', JNum 2),
     (''content'', JStr ''Title'')]\<close>

definition example_parse :: "string \<Rightarrow> jsval option" where
  "example_parse s =
     (if s = hi_json then Some (JArr [hi_block])
      else if s = title_json then Some (JArr [title_block])
      else None)"

definition example_posts :: "jsval list" where
  "example_posts =
     [JObj [(''id'', JStr ''a''), (''title'', JStr ''t1''), (''content'', JStr ''hi''),
            (''blocks'', JArr [hi_block]), (''sectionId'', JNum 1)],
      JObj [(''id'', JStr ''b''), (''title'', JStr ''t2''), (''content'', JStr hi_json),
            (''blocks'', JStr hi_json), (''sectionId'', JNum 1)],
      JObj [(''id'', JStr ''c''), (''title'', JStr ''t3''), (''content'', JStr title_json),
            (''blocks'', JNull), (''sectionId'', JNum 2)]]"

definition example_fields :: obj where
  "example_fields =
     [(''sections'', JArr []), (''posts'', JArr example_posts), (''nextSectionId'', JNum 3)]"

definition example_data :: jsval where
  "example_data = JObj example_fields"

definition example_migrated :: jsval where
  "example_migrated = JObj
     [(''sections'', JArr []),
      (''posts'', JArr
        [JObj [(''id'', JStr ''a''), (''title'', JStr ''t1''), (''content'', JStr ''hi''),
               (''blocks'', JArr [hi_block]), (''sectionId'', JNum 1)],
         JObj [(''id'', JStr ''b''), (''title'', JStr ''t2''), (''content'', JStr ''hi''),
               (''blocks'', JArr [hi_block]), (''sectionId'', JNum 1)],
         JObj [(''id'', JStr ''c''), (''title'', JStr ''t3''), (''content'', JStr ''Title''),
               (''blocks'', JArr [title_block]), (''sectionId'', JNum 2)]]),
      (''nextSectionId'', JNum 3)]"

lemma map_of_set_prop [simp]:
  "map_of (set_prop k v kvs) k' = (if k' = k then Some v else map_of kvs k')"
  by (induction kvs) auto

lemma getprop_set_prop [simp]:
  "getprop (JObj (set_prop k v kvs)) k' = (if k' = k then v else getprop (JObj kvs) k')"
  by simp

lemma set_prop_same: "map_of kvs k = Some v \<Longrightarrow> set_prop k v kvs = kvs"
  by (induction kvs) (auto split: if_splits)

lemma isArray_not_isString: "isArray v \<Longrightarrow> \<not> isString v"
  by (cases v) simp_all

lemma migrate_post_cases:
  assumes "migrate_post parse post changed = Inr (post', changed')"
  shows "isArray (getprop (JObj post') ''blocks'') \<or>
         (post' = post \<and> changed' = changed \<and> (\<forall>c. migrate_post parse post c = Inr (post, c)))"
  using assms
  by (auto simp: migrate_post_def migrate_blocks_string_def migrate_content_json_def Let_def
      split: if_splits sum.splits)

lemma migrate_post_array:
  assumes "isArray (getprop (JObj post) ''blocks'')"
  shows "migrate_post parse post c = Inr (post, c)"
  using assms
  by (simp add: migrate_post_def migrate_blocks_string_def migrate_content_json_def
      isArray_not_isString)

lemma migrate_post_idem:
  assumes "migrate_post parse post changed = Inr (post', changed')"
  shows "migrate_post parse post' c = Inr (post', c)"
  using migrate_post_cases [OF assms] migrate_post_array by auto

lemma migrate_loop_idem:
  "migrate_loop parse posts changed = Inr (posts', changed') \<Longrightarrow>
   migrate_loop parse posts' c = Inr (posts', c)"
proof (induction posts arbitrary: changed posts' changed' c)
  case Nil
  then show ?case by simp
next
  case (Cons post posts)
  from Cons.prems obtain p1 c1 ps1 where
    p1: "migrate_post parse post changed = Inr (p1, c1)" and
    ps1: "migrate_loop parse posts c1 = Inr (ps1, changed')" and
    eq: "posts' = p1 # ps1"
    by (auto split: sum.splits)
  show ?case
    using migrate_post_idem [OF p1] Cons.IH [OF ps1] by (simp add: eq)
qed

lemma spread_JObj_map: "map (spread \<circ> JObj) ps = ps"
  by (induction ps) simp_all

lemma hi_ne_title: "hi_json \<noteq> title_json" "title_json \<noteq> hi_json"
  by (simp_all add: hi_json_def title_json_def)

lemma looks_hi: "looks_like_array (JStr hi_json)" "looks_like_array (JStr title_json)"
  "\<not> looks_like_array (JStr ''hi'')"
  by (simp_all add: looks_like_array_def startsWith_def trim_def is_space_def hi_json_def title_json_def)

lemma plain_examples:
  "extractPlainTextFromBlocks (JArr [hi_block]) = Inr ''hi''"
  "extractPlainTextFromBlocks (JArr [title_block]) = Inr ''Title''"
  by (simp_all add: extractPlainTextFromBlocks_def hi_block_def title_block_def walk.simps)

lemma example_run:
  "migratePostsIfNeeded example_parse example_data = Inr (True, example_migrated)"
  by (simp add: migratePostsIfNeeded_def example_data_def example_fields_def example_posts_def
      example_migrated_def Let_def
      migrate_post_def migrate_blocks_string_def migrate_content_json_def tryParseJson_def
      example_parse_def hi_ne_title looks_hi plain_examples)

text \<open>
  C1. Whatever the stored document and whatever \<^verbatim>\<open>JSON.parse\<close> returns: when
  \<^verbatim>\<open>migratePostsIfNeeded\<close> returns a document, a second application to that document
  returns it unchanged with \<^verbatim>\<open>changed = false\<close>. (A post the first pass rewrote has an
  array as \<^verbatim>\<open>blocks\<close>, which both statements of the loop skip; a post it left alone is
  left alone again.)
\<close>

theorem migrate_idempotent:
  assumes "migratePostsIfNeeded parse data = Inr (changed, out)"
  shows "migratePostsIfNeeded parse out = Inr (False, out)"
proof -
  let ?kvs = "spread data"
  let ?posts = "if isArray (getprop (JObj ?kvs) ''posts'')
       then map spread (elems (getprop (JObj ?kvs) ''posts'')) else []"
  have "migratePostsIfNeeded parse data =
      (case migrate_loop parse ?posts False of
         Inl e \<Rightarrow> Inl e
       | Inr (posts', changed) \<Rightarrow>
           Inr (changed, JObj (set_prop ''posts'' (JArr (map JObj posts')) ?kvs)))"
    unfolding migratePostsIfNeeded_def Let_def ..
  with assms obtain posts' where
    loop: "migrate_loop parse ?posts False = Inr (posts', changed)" and
    out: "out = JObj (set_prop ''posts'' (JArr (map JObj posts')) ?kvs)"
    by (auto split: sum.splits)
  have again: "migrate_loop parse posts' False = Inr (posts', False)"
    using loop by (rule migrate_loop_idem)
  have same: "set_prop ''posts'' (JArr (map JObj posts'))
      (set_prop ''posts'' (JArr (map JObj posts')) ?kvs)
      = set_prop ''posts'' (JArr (map JObj posts')) ?kvs"
    by (rule set_prop_same) simp
  show ?thesis
    unfolding out
    by (simp add: migratePostsIfNeeded_def Let_def spread_JObj_map again same)
qed

theorem migrate_idempotent_witness:
  "migratePostsIfNeeded example_parse example_data = Inr (True, example_migrated)
   \<and> migratePostsIfNeeded example_parse example_migrated = Inr (False, example_migrated)"
  using migrate_idempotent [of example_parse example_data True example_migrated] example_run
  by simp

text \<open>
  The first application does return whenever \<^verbatim>\<open>JSON.parse\<close> yields printable values
  only: the extractor is applied to parsed values and to nothing else.
\<close>

lemma tryParseJson_printable:
  "\<forall>s v. parse s = Some v \<longrightarrow> printable v \<Longrightarrow> printable (tryParseJson parse str)"
  by (simp add: tryParseJson_def split: option.splits)

lemma migrate_post_returns:
  assumes "\<forall>s v. parse s = Some v \<longrightarrow> printable v"
  shows "\<exists>post' c'. migrate_post parse post c = Inr (post', c')"
proof -
  have ex: "\<exists>t. extractPlainTextFromBlocks (tryParseJson parse str) = Inr t" for str
    using extract_printable [OF tryParseJson_printable [OF assms]] .
  have first: "\<exists>p1 c1. migrate_blocks_string parse post c = Inr (p1, c1)"
    using ex [of "str_of (getprop (JObj post) ''blocks'')"]
    by (auto simp: migrate_blocks_string_def Let_def)
  have second: "\<exists>p2 c2. migrate_content_json parse p1 c1 = Inr (p2, c2)" for p1 c1
    using ex [of "str_of (getprop (JObj p1) ''content'')"]
    by (auto simp: migrate_content_json_def Let_def)
  from first second show ?thesis
    by (auto simp: migrate_post_def)
qed

lemma migrate_loop_returns:
  assumes "\<forall>s v. parse s = Some v \<longrightarrow> printable v"
  shows "\<exists>posts' c'. migrate_loop parse posts c = Inr (posts', c')"
proof (induction posts arbitrary: c)
  case Nil
  then show ?case by simp
next
  case (Cons post posts)
  from migrate_post_returns [OF assms] obtain p1 c1 where
    p1: "migrate_post parse post c = Inr (p1, c1)" by blast
  from Cons.IH obtain ps c2 where "migrate_loop parse posts c1 = Inr (ps, c2)" by blast
  with p1 show ?case by simp
qed

lemma migrate_returns:
  assumes "\<forall>s v. parse s = Some v \<longrightarrow> printable v"
  shows "\<exists>changed out. migratePostsIfNeeded parse data = Inr (changed, out)"
proof -
  let ?posts = "if isArray (getprop (JObj (spread data)) ''posts'')
       then map spread (elems (getprop (JObj (spread data)) ''posts'')) else []"
  from migrate_loop_returns [OF assms] obtain ps c where
    "migrate_loop parse ?posts False = Inr (ps, c)" by blast
  then show ?thesis
    unfolding migratePostsIfNeeded_def Let_def by simp
qed

lemma migrate_post_frame:
  assumes "migrate_post parse post c = Inr (post', c')"
    and "k \<noteq> ''blocks''" and "k \<noteq> ''content''"
  shows "map_of post' k = map_of post k"
  using assms
  by (auto simp: migrate_post_def migrate_blocks_string_def migrate_content_json_def Let_def
      split: if_splits sum.splits)

lemma migrate_loop_frame:
  "migrate_loop parse posts c = Inr (posts', c') \<Longrightarrow>
   list_all2 (\<lambda>p p'. \<forall>k. k \<noteq> ''blocks'' \<and> k \<noteq> ''content'' \<longrightarrow> map_of p' k = map_of p k)
     posts posts'"
proof (induction posts arbitrary: c posts' c')
  case Nil
  then show ?case by simp
next
  case (Cons post posts)
  from Cons.prems obtain p1 c1 ps1 where
    p1: "migrate_post parse post c = Inr (p1, c1)" and
    ps1: "migrate_loop parse posts c1 = Inr (ps1, c')" and
    eq: "posts' = p1 # ps1"
    by (auto split: sum.splits)
  show ?case
    using migrate_post_frame [OF p1] Cons.IH [OF ps1] by (simp add: eq)
qed

text \<open>
  C9. For a document object whose \<^verbatim>\<open>posts\<close> is an array, the result is the document
  with only \<^verbatim>\<open>posts\<close> replaced: every other top-level property is as before. The new
  array has as many posts, in the same order, and the post at each index agrees with the
  copy \<^verbatim>\<open>{ ...p }\<close> of the old one (for an object, the post \<open>p\<close> itself) on every
  property other than \<^verbatim>\<open>blocks\<close> and \<^verbatim>\<open>content\<close>.
\<close>

theorem migrate_frame:
  assumes run: "migratePostsIfNeeded parse (JObj kvs) = Inr (changed, out)"
    and posts: "getprop (JObj kvs) ''posts'' = JArr ps"
  shows "\<exists>ps'. out = JObj (set_prop ''posts'' (JArr ps') kvs)
           \<and> length ps' = length ps
           \<and> (\<forall>i<length ps. \<forall>k. k \<noteq> ''blocks'' \<and> k \<noteq> ''content'' \<longrightarrow>
                 getprop (ps' ! i) k = getprop (JObj (spread (ps ! i))) k)
           \<and> (\<forall>k. k \<noteq> ''posts'' \<longrightarrow> getprop out k = getprop (JObj kvs) k)"
proof -
  have "migratePostsIfNeeded parse (JObj kvs) =
      (case migrate_loop parse (map spread ps) False of
         Inl e \<Rightarrow> Inl e
       | Inr (posts', changed) \<Rightarrow>
           Inr (changed, JObj (set_prop ''posts'' (JArr (map JObj posts')) kvs)))"
    using posts by (simp add: migratePostsIfNeeded_def Let_def)
  with run obtain posts' where
    loop: "migrate_loop parse (map spread ps) False = Inr (posts', changed)" and
    out: "out = JObj (set_prop ''posts'' (JArr (map JObj posts')) kvs)"
    by (auto split: sum.splits)
  have rel: "list_all2 (\<lambda>p p'. \<forall>k. k \<noteq> ''blocks'' \<and> k \<noteq> ''content'' \<longrightarrow>
      map_of p' k = map_of p k) (map spread ps) posts'"
    using loop by (rule migrate_loop_frame)
  then have len: "length posts' = length ps"
    by (auto dest: list_all2_lengthD)
  have fields: "getprop (map JObj posts' ! i) k = getprop (JObj (spread (ps ! i))) k"
    if "i < length ps" "k \<noteq> ''blocks'' \<and> k \<noteq> ''content''" for i k
  proof -
    have "map_of (posts' ! i) k = map_of (map spread ps ! i) k"
      using list_all2_nthD [OF rel, of i] that by simp
    then show ?thesis
      using that(1) len by simp
  qed
  show ?thesis
    using out len fields by (intro exI [of _ "map JObj posts'"]) simp
qed

theorem migrate_frame_witness:
  "\<exists>ps'. example_migrated = JObj (set_prop ''posts'' (JArr ps') example_fields)
      \<and> length ps' = length example_posts
      \<and> (\<forall>i<length example_posts. \<forall>k. k \<noteq> ''blocks'' \<and> k \<noteq> ''content'' \<longrightarrow>
            getprop (ps' ! i) k = getprop (JObj (spread (example_posts ! i))) k)
      \<and> (\<forall>k. k \<noteq> ''posts'' \<longrightarrow> getprop example_migrated k = getprop (JObj example_fields) k)"
proof -
  have "migratePostsIfNeeded example_parse (JObj example_fields) = Inr (True, example_migrated)"
    using example_run by (simp add: example_data_def)
  moreover have "getprop (JObj example_fields) ''posts'' = JArr example_posts"
    by (simp add: example_fields_def)
  ultimately show ?thesis
    by (rule migrate_frame)
qed

text \<open>
  C7. A document with one post whose \<^verbatim>\<open>blocks\<close> is the string \<open>hi_json\<close> and whose
  \<^verbatim>\<open>content\<close> is a string that, trimmed, starts with \<^verbatim>\<open>[\<close>: given that
  \<^verbatim>\<open>JSON.parse\<close> reads the string as the array of the one paragraph block, the result
  reports \<^verbatim>\<open>changed = true\<close>, and in its post \<^verbatim>\<open>blocks\<close> is that one-element array and
  \<^verbatim>\<open>content\<close> is \<^verbatim>\<open>hi\<close>.
\<close>

theorem migrate_double_encoded:
  assumes parse: "parse hi_json = Some (JArr [hi_block])"
    and posts: "getprop (JObj kvs) ''posts'' = JArr [JObj post]"
    and blocks: "getprop (JObj post) ''blocks'' = JStr hi_json"
    and content: "looks_like_array (getprop (JObj post) ''content'')"
  shows "migratePostsIfNeeded parse (JObj kvs) =
           Inr (True, JObj (set_prop ''posts''
             (JArr [JObj (set_prop ''content'' (JStr ''hi'')
                      (set_prop ''blocks'' (JArr [hi_block]) post))]) kvs))
         \<and> getprop (JObj (set_prop ''content'' (JStr ''hi'')
                      (set_prop ''blocks'' (JArr [hi_block]) post))) ''blocks'' = JArr [hi_block]
         \<and> getprop (JObj (set_prop ''content'' (JStr ''hi'')
                      (set_prop ''blocks'' (JArr [hi_block]) post))) ''content'' = JStr ''hi''"
proof -
  have plain: "extractPlainTextFromBlocks (JArr [hi_block]) = Inr ''hi''"
    by (simp add: extractPlainTextFromBlocks_def hi_block_def walk.simps)
  have "migrate_blocks_string parse post False =
      Inr (set_prop ''content'' (JStr ''hi'') (set_prop ''blocks'' (JArr [hi_block]) post), True)"
    using parse blocks content
    by (simp add: migrate_blocks_string_def tryParseJson_def plain)
  then have "migrate_post parse post False =
      Inr (set_prop ''content'' (JStr ''hi'') (set_prop ''blocks'' (JArr [hi_block]) post), True)"
    by (simp add: migrate_post_def migrate_content_json_def)
  then show ?thesis
    using posts by (simp add: migratePostsIfNeeded_def Let_def)
qed

theorem migrate_double_encoded_witness:
  "migratePostsIfNeeded example_parse
     (JObj [(''posts'', JArr [JObj [(''blocks'', JStr hi_json), (''content'', JStr hi_json)]])]) =
   Inr (True,
     JObj [(''posts'', JArr [JObj [(''blocks'', JArr [hi_block]), (''content'', JStr ''hi'')]])])"
  using migrate_double_encoded [of example_parse
      "[(''posts'', JArr [JObj [(''blocks'', JStr hi_json), (''content'', JStr hi_json)]])]"
      "[(''blocks'', JStr hi_json), (''content'', JStr hi_json)]"]
  by (simp add: example_parse_def looks_hi)

section \<open>Unique post ids\<close>

text \<open>
  \<^verbatim>\<open>hasId\<close>: \<^verbatim>\<open>posts.some((p) => String(p.id) === String(x))\<close>. The posts in order,
  stopping at the first match; \<^verbatim>\<open>p.id\<close> throws on a post that is \<^verbatim>\<open>null\<close> or
  \<^verbatim>\<open>undefined\<close>. The id \<open>x\<close> is a string, which \<^verbatim>\<open>String\<close> returns as it is.
\<close>

definition id_string :: "jsval \<Rightarrow> error + string" where
  "id_string p = (case readprop p ''id'' of Inl e \<Rightarrow> Inl e | Inr v \<Rightarrow> String_js v)"

fun hasId :: "jsval list \<Rightarrow> string \<Rightarrow> error + bool" where
  "hasId [] x = Inr False"
| "hasId (p # posts) x =
     (case id_string p of
        Inl e \<Rightarrow> Inl e
      | Inr s \<Rightarrow> if s = x then Inr True else hasId posts x)"

lemma digit_inj:
  assumes "a < 10" "b < 10" "digit a = digit b"
  shows "a = b"
proof -
  from assms(3) have "(of_char (digit a) :: nat) = of_char (digit b)" by simp
  then have "(48 + a) mod 256 = (48 + b) mod 256"
    by (simp add: digit_def)
  with assms(1,2) show ?thesis by simp
qed

lemma show_nat_nonempty: "show_nat n \<noteq> []" "[] \<noteq> show_nat n"
  by (subst show_nat.simps, simp)+

declare show_nat.simps [simp del]

lemma show_nat_inj: "show_nat m = show_nat n \<Longrightarrow> m = n"
proof (induction m arbitrary: n rule: show_nat.induct)
  case (1 m)
  show ?case
  proof (cases "m < 10")
    case True
    then have m: "show_nat m = [digit m]"
      by (subst show_nat.simps) simp
    show ?thesis
    proof (cases "n < 10")
      case True
      then have "show_nat n = [digit n]"
        by (subst show_nat.simps) simp
      with m "1.prems" have "digit m = digit n" by simp
      with \<open>m < 10\<close> True show ?thesis
        by (rule digit_inj)
    next
      case False
      then have "show_nat n = show_nat (n div 10) @ [digit (n mod 10)]"
        by (subst show_nat.simps) simp
      with m "1.prems" show ?thesis
        by (simp add: show_nat_nonempty)
    qed
  next
    case False
    then have m: "show_nat m = show_nat (m div 10) @ [digit (m mod 10)]"
      by (subst show_nat.simps) simp
    show ?thesis
    proof (cases "n < 10")
      case True
      then have "show_nat n = [digit n]"
        by (subst show_nat.simps) simp
      with m "1.prems" show ?thesis
        by (simp add: show_nat_nonempty)
    next
      case nf: False
      then have "show_nat n = show_nat (n div 10) @ [digit (n mod 10)]"
        by (subst show_nat.simps) simp
      with m "1.prems" have eq: "show_nat (m div 10) = show_nat (n div 10)"
        and d: "digit (m mod 10) = digit (n mod 10)"
        by simp_all
      from "1.IH" [OF False eq] have "m div 10 = n div 10" .
      moreover have "m mod 10 = n mod 10"
        by (rule digit_inj [OF _ _ d]) simp_all
      ultimately show ?thesis
        by (metis div_mult_mod_eq)
    qed
  qed
qed

text \<open>The template literal that builds the next candidate.\<close>

definition candidate :: "string \<Rightarrow> nat \<Rightarrow> string" where
  "candidate baseId n = baseId @ ''-'' @ show_nat n"

lemma candidate_inj: "candidate b m = candidate b n \<Longrightarrow> m = n"
  by (simp add: candidate_def show_nat_inj)

lemma hasId_True_mem: "hasId posts x = Inr True \<Longrightarrow> Inr x \<in> id_string ` set posts"
  by (induction posts) (auto split: sum.splits if_splits)

definition taken_from :: "string \<Rightarrow> jsval list \<Rightarrow> nat \<Rightarrow> nat set" where
  "taken_from baseId posts n = {k. n \<le> k \<and> Inr (candidate baseId k) \<in> id_string ` set posts}"

lemma finite_taken_from: "finite (taken_from baseId posts n)"
proof -
  have "taken_from baseId posts n \<subseteq> (\<lambda>k. Inr (candidate baseId k) :: error + string) -` (id_string ` set posts)"
    by (auto simp: taken_from_def)
  moreover have "inj (\<lambda>k. Inr (candidate baseId k) :: error + string)"
    by (auto intro!: injI dest: candidate_inj)
  ultimately show ?thesis
    by (meson finite_vimageI finite_imageI finite_set finite_subset)
qed

text \<open>
  The loop of \<^verbatim>\<open>ensureUniqueId\<close> on its two variables: the current id and the counter
  \<^verbatim>\<open>n\<close> (a natural number: the counter stays far below the integers a JavaScript
  number holds exactly, since each step needs one more post). It ends because the
  candidates are pairwise different and only finitely many strings are ids of posts.
\<close>

function ensure_loop :: "string \<Rightarrow> jsval list \<Rightarrow> string \<Rightarrow> nat \<Rightarrow> error + string" where
  "ensure_loop baseId posts cur n =
     (case hasId posts cur of
        Inl e \<Rightarrow> Inl e
      | Inr found \<Rightarrow>
          if found then ensure_loop baseId posts (candidate baseId n) (Suc n) else Inr cur)"
  by pat_completeness auto
termination
proof (relation "measure (\<lambda>(baseId, posts, cur, n).
    2 * card (taken_from baseId posts n) + (if hasId posts cur = Inr True then 1 else 0))")
  fix baseId :: string and posts :: "jsval list" and cur :: string and n :: nat and found :: bool
  assume h: "hasId posts cur = Inr found" and f: found
  have sub: "taken_from baseId posts (Suc n) \<subseteq> taken_from baseId posts n"
    by (auto simp: taken_from_def)
  have le: "card (taken_from baseId posts (Suc n)) \<le> card (taken_from baseId posts n)"
    using sub finite_taken_from by (rule card_mono [rotated])
  have "2 * card (taken_from baseId posts (Suc n))
        + (if hasId posts (candidate baseId n) = Inr True then 1 else 0)
      < 2 * card (taken_from baseId posts n) + 1"
  proof (cases "hasId posts (candidate baseId n) = Inr True")
    case True
    then have "n \<in> taken_from baseId posts n" "n \<notin> taken_from baseId posts (Suc n)"
      by (auto simp: taken_from_def dest: hasId_True_mem)
    then have "taken_from baseId posts (Suc n) \<subset> taken_from baseId posts n"
      using sub by auto
    then have "card (taken_from baseId posts (Suc n)) < card (taken_from baseId posts n)"
      using finite_taken_from by (rule psubset_card_mono [rotated])
    then show ?thesis by simp
  next
    case False
    with le show ?thesis by simp
  qed
  with h f show "((baseId, posts, candidate baseId n, Suc n), baseId, posts, cur, n)
      \<in> measure (\<lambda>(baseId, posts, cur, n).
          2 * card (taken_from baseId posts n) + (if hasId posts cur = Inr True then 1 else 0))"
    by simp
qed simp

declare ensure_loop.simps [simp del]

definition ensureUniqueId :: "string \<Rightarrow> jsval list \<Rightarrow> error + string" where
  "ensureUniqueId baseId posts = ensure_loop baseId posts baseId 2"

text \<open>A post with a string id, for the examples.\<close>

definition post_with_id :: "string \<Rightarrow> jsval" where
  "post_with_id i = JObj [(''id'', JStr i), (''title'', JStr ''t'')]"

definition example_ids :: "jsval list" where
  "example_ids = [post_with_id ''2024-01-01'', post_with_id ''2024-01-01-3'',
     post_with_id ''2024-01-01-2'']"

lemma hasId_total:
  "\<forall>p\<in>set posts. \<exists>s. id_string p = Inr s \<Longrightarrow>
   hasId posts x = Inr (Inr x \<in> id_string ` set posts)"
  by (induction posts) auto

lemma ensure_loop_result:
  assumes ok: "\<forall>p\<in>set posts. \<exists>s. id_string p = Inr s"
  shows "\<exists>r. ensure_loop baseId posts cur n = Inr r
           \<and> (if Inr cur \<in> id_string ` set posts
               then \<exists>k\<ge>n. r = candidate baseId k \<and> Inr r \<notin> id_string ` set posts
                      \<and> (\<forall>m. n \<le> m \<and> m < k \<longrightarrow> Inr (candidate baseId m) \<in> id_string ` set posts)
               else r = cur)"
  using ok
proof (induction baseId posts cur n rule: ensure_loop.induct)
  case (1 baseId posts cur n)
  note has = hasId_total [OF "1.prems"]
  show ?case
  proof (cases "Inr cur \<in> id_string ` set posts")
    case False
    then show ?thesis
      by (subst ensure_loop.simps) (simp add: has)
  next
    case True
    then have found: "hasId posts cur = Inr True"
      by (simp add: has)
    from "1.IH" [OF found _ "1.prems"] obtain r where
      r: "ensure_loop baseId posts (candidate baseId n) (Suc n) = Inr r" and
      spec: "if Inr (candidate baseId n) \<in> id_string ` set posts
         then \<exists>k\<ge>Suc n. r = candidate baseId k \<and> Inr r \<notin> id_string ` set posts
                \<and> (\<forall>m. Suc n \<le> m \<and> m < k \<longrightarrow> Inr (candidate baseId m) \<in> id_string ` set posts)
         else r = candidate baseId n"
      by auto
    have loop: "ensure_loop baseId posts cur n = Inr r"
      by (subst ensure_loop.simps) (simp add: found r)
    have "\<exists>k\<ge>n. r = candidate baseId k \<and> Inr r \<notin> id_string ` set posts
        \<and> (\<forall>m. n \<le> m \<and> m < k \<longrightarrow> Inr (candidate baseId m) \<in> id_string ` set posts)"
    proof (cases "Inr (candidate baseId n) \<in> id_string ` set posts")
      case False
      with spec have "r = candidate baseId n" by simp
      with False show ?thesis
        by (intro exI [of _ n]) auto
    next
      case taken: True
      with spec obtain k where k: "Suc n \<le> k" "r = candidate baseId k"
        "Inr r \<notin> id_string ` set posts"
        "\<forall>m. Suc n \<le> m \<and> m < k \<longrightarrow> Inr (candidate baseId m) \<in> id_string ` set posts"
        by auto
      have "Inr (candidate baseId m) \<in> id_string ` set posts" if "n \<le> m" "m < k" for m
      proof (cases "m = n")
        case True
        with taken show ?thesis by simp
      next
        case False
        with that k(4) show ?thesis by simp
      qed
      with k show ?thesis
        by (intro exI [of _ k]) simp
    qed
    with loop True show ?thesis by simp
  qed
qed

text \<open>
  C10. For a string \<open>baseId\<close> and a list of posts whose ids all have a string form
  (no post is \<^verbatim>\<open>null\<close> or \<^verbatim>\<open>undefined\<close>, no id is an object that cannot be converted)
  and hold safe integers where they hold numbers (so that the string form is the one
  \<^verbatim>\<open>String\<close> gives), \<^verbatim>\<open>ensureUniqueId\<close> returns an id that is the string form of no
  post's id. When
  \<open>baseId\<close> is not taken it is returned as it is; otherwise the result is \<open>baseId\<close>,
  a hyphen and the least \<open>n \<ge> 2\<close> whose candidate is not taken. That the loop ends is
  the termination proof of \<open>ensure_loop\<close>.
\<close>

theorem ensureUniqueId_fresh:
  assumes "\<forall>p\<in>set posts. (\<exists>s. id_string p = Inr s) \<and> safe_numbers (getprop p ''id'')"
  shows "\<exists>r. ensureUniqueId baseId posts = Inr r
           \<and> Inr r \<notin> id_string ` set posts
           \<and> (if Inr baseId \<in> id_string ` set posts
               then \<exists>n\<ge>2. r = baseId @ ''-'' @ show_nat n
                      \<and> (\<forall>m. 2 \<le> m \<and> m < n \<longrightarrow>
                            Inr (baseId @ ''-'' @ show_nat m) \<in> id_string ` set posts)
               else r = baseId)"
proof -
  from assms have ok: "\<forall>p\<in>set posts. \<exists>s. id_string p = Inr s"
    by blast
  from ensure_loop_result [OF ok, of baseId baseId 2] obtain r where
    r: "ensure_loop baseId posts baseId 2 = Inr r" and
    spec: "if Inr baseId \<in> id_string ` set posts
       then \<exists>k\<ge>2. r = candidate baseId k \<and> Inr r \<notin> id_string ` set posts
              \<and> (\<forall>m. 2 \<le> m \<and> m < k \<longrightarrow> Inr (candidate baseId m) \<in> id_string ` set posts)
       else r = baseId"
    by auto
  from spec have "Inr r \<notin> id_string ` set posts"
    by (auto split: if_splits)
  with r spec show ?thesis
    by (auto simp: ensureUniqueId_def candidate_def split: if_splits)
qed

lemma example_ids_strings:
  "id_string ` set example_ids = {Inr ''2024-01-01'', Inr ''2024-01-01-3'', Inr ''2024-01-01-2''}"
  by (simp add: example_ids_def post_with_id_def id_string_def readprop_def)

theorem ensureUniqueId_fresh_witness:
  "\<exists>r. ensureUniqueId ''2024-01-01'' example_ids = Inr r
      \<and> Inr r \<notin> id_string ` set example_ids
      \<and> (\<exists>n\<ge>2. r = ''2024-01-01'' @ ''-'' @ show_nat n
            \<and> (\<forall>m. 2 \<le> m \<and> m < n \<longrightarrow>
                  Inr (''2024-01-01'' @ ''-'' @ show_nat m) \<in> id_string ` set example_ids))"
proof -
  have ok: "\<forall>p\<in>set example_ids.
      (\<exists>s. id_string p = Inr s) \<and> safe_numbers (getprop p ''id'')"
    by (simp add: example_ids_def post_with_id_def id_string_def readprop_def)
  have taken: "Inr ''2024-01-01'' \<in> id_string ` set example_ids"
    by (simp add: example_ids_strings)
  show ?thesis
    using ensureUniqueId_fresh [OF ok, of "''2024-01-01''"] taken by simp
qed

text \<open>The same run, evaluated.\<close>

lemma ensureUniqueId_example:
  "ensureUniqueId ''2024-01-01'' example_ids = Inr ''2024-01-01-4''"
  by code_simp

section \<open>Reordering a block list\<close>

text \<open>
  \<^verbatim>\<open>blocksList.findIndex((b) => b.id === x.id)\<close>, where \<^verbatim>\<open>x\<close> is \<^verbatim>\<open>active\<close> or
  \<^verbatim>\<open>over\<close>: the index of the first block with that id, or \<open>-1\<close>. The callback runs
  once per element until it finds one: it reads \<^verbatim>\<open>b.id\<close>, which throws on an element
  that is \<^verbatim>\<open>null\<close> or \<^verbatim>\<open>undefined\<close>, and then \<^verbatim>\<open>x.id\<close>, which throws when \<^verbatim>\<open>x\<close> is
  \<^verbatim>\<open>null\<close>. The first argument is \<open>None\<close> when \<^verbatim>\<open>x\<close> is \<^verbatim>\<open>null\<close> and \<open>Some i\<close> when
  \<^verbatim>\<open>x.id\<close> is \<open>i\<close>; on the empty list the callback never runs and nothing throws. Ids
  are strings or numbers, on which \<^verbatim>\<open>===\<close> is equality of values.
\<close>

fun findIndex_id :: "jsval option \<Rightarrow> jsval list \<Rightarrow> error + int" where
  "findIndex_id x [] = Inr (- 1)"
| "findIndex_id x (b # bs) =
     (case readprop b ''id'' of
        Inl e \<Rightarrow> Inl e
      | Inr v \<Rightarrow>
          (case x of
             None \<Rightarrow> Inl TypeError
           | Some a \<Rightarrow>
               if v = a then Inr 0
               else (case findIndex_id x bs of
                       Inl e \<Rightarrow> Inl e
                     | Inr i \<Rightarrow> Inr (if i < 0 then - 1 else i + 1))))"

text \<open>
  Where \<^verbatim>\<open>splice(start, ...)\<close> begins in an array of length \<open>len\<close>: a negative start
  counts from the end, and the result is clamped to the array.
\<close>

definition splice_start :: "int \<Rightarrow> nat \<Rightarrow> nat" where
  "splice_start start len =
     (if start < 0 then nat (max (int len + start) 0) else min (nat start) len)"

text \<open>
  \<^verbatim>\<open>arrayMove\<close> of the library \<^verbatim>\<open>@dnd-kit/sortable\<close>, which the editor imports:
  \<^verbatim>\<open>
  const newArray = array.slice();
  newArray.splice(to < 0 ? newArray.length + to : to, 0, newArray.splice(from, 1)[0]);
  return newArray;
  \<close>
  The position is computed first, on the full length; then one element is removed at
  \<^verbatim>\<open>from\<close> (none when the array is empty, and \<^verbatim>\<open>[0]\<close> of nothing is
  \<^verbatim>\<open>undefined\<close>); then the removed element is inserted at the position.
\<close>

definition arrayMove :: "jsval list \<Rightarrow> int \<Rightarrow> int \<Rightarrow> jsval list" where
  "arrayMove array from to =
     (let pos = (if to < 0 then int (length array) + to else to);
          k = splice_start from (length array);
          removed = take 1 (drop k array);
          newArray = take k array @ drop (k + 1) array;
          item = (case removed of [] \<Rightarrow> JUndef | x # xs \<Rightarrow> x);
          j = splice_start pos (length newArray)
      in take j newArray @ [item] @ drop j newArray)"

text \<open>
  \<^verbatim>\<open>handleDragEnd(event, blocksList, setBlocksList)\<close>. Of the event it reads
  \<^verbatim>\<open>active.id\<close> and \<^verbatim>\<open>over\<close>: \<open>over\<close> is \<open>None\<close> when \<^verbatim>\<open>event.over\<close> is \<^verbatim>\<open>null\<close>, and
  \<open>Some i\<close> when it is an object with id \<open>i\<close>. The result is the list the editor holds
  afterwards: what \<^verbatim>\<open>setBlocksList\<close> received, or \<^verbatim>\<open>blocksList\<close> when it was not called.
  With \<^verbatim>\<open>over\<close> null, \<^verbatim>\<open>over?.id\<close> is \<^verbatim>\<open>undefined\<close> and the test passes; \<^verbatim>\<open>over.id\<close> is
  then read inside the callback of the second \<^verbatim>\<open>findIndex\<close>, where it throws as soon
  as the list has an element.
\<close>

definition handleDragEnd :: "jsval \<Rightarrow> jsval option \<Rightarrow> jsval list \<Rightarrow> error + jsval list" where
  "handleDragEnd active_id over blocksList =
     (if active_id \<noteq> (case over of None \<Rightarrow> JUndef | Some over_id \<Rightarrow> over_id) then
        (case findIndex_id (Some active_id) blocksList of
           Inl e \<Rightarrow> Inl e
         | Inr oldIndex \<Rightarrow>
             (case findIndex_id over blocksList of
                Inl e \<Rightarrow> Inl e
              | Inr newIndex \<Rightarrow> Inr (arrayMove blocksList oldIndex newIndex)))
      else Inr blocksList)"

text \<open>A block with a string id, for the examples.\<close>

definition blk :: "string \<Rightarrow> jsval" where
  "blk i = JObj [(''id'', JStr i), (''type'', JStr ''paragraph''), (''size'', JStr ''full''),
     (''content'', JStr i)]"

text \<open>The index of the first block with the id \<open>a\<close>, the length of the list if there is none.\<close>

definition first_index :: "jsval \<Rightarrow> jsval list \<Rightarrow> nat" where
  "first_index a bs = length (takeWhile (\<lambda>b. getprop b ''id'' \<noteq> a) bs)"

lemma findIndex_id_first_index:
  assumes "\<forall>b\<in>set bs. b \<noteq> JUndef \<and> b \<noteq> JNull"
  shows "findIndex_id (Some a) bs =
     Inr (if first_index a bs < length bs then int (first_index a bs) else - 1)"
  using assms by (induction bs) (auto simp: first_index_def readprop_def)

lemma first_index_less:
  "a \<in> (\<lambda>b. getprop b ''id'') ` set bs \<Longrightarrow> first_index a bs < length bs"
  unfolding first_index_def by (induction bs) auto

lemma first_index_nth:
  "first_index a bs < length bs \<Longrightarrow> getprop (bs ! first_index a bs) ''id'' = a"
  unfolding first_index_def using nth_length_takeWhile [of "\<lambda>b. getprop b ''id'' \<noteq> a" bs]
  by auto

lemma arrayMove_in_range:
  assumes "i < length S" "j < length S"
  shows "arrayMove S (int i) (int j) =
     take j (take i S @ drop (Suc i) S) @ S ! i # drop j (take i S @ drop (Suc i) S)"
proof -
  have "drop i S = S ! i # drop (Suc i) S"
    using assms(1) by (simp add: Cons_nth_drop_Suc)
  then have removed: "take (Suc 0) (drop i S) = [S ! i]"
    by simp
  have k: "splice_start (int i) (length S) = i"
    using assms(1) by (simp add: splice_start_def)
  have len: "length (take i S @ drop (Suc i) S) = length S - 1"
    using assms(1) by simp
  have j: "splice_start (int j) (min (length S) i + (length S - Suc i)) = j"
    using assms by (auto simp: splice_start_def)
  show ?thesis
    unfolding arrayMove_def Let_def k by (simp add: removed j)
qed

lemma arrayMove_props:
  assumes "i < length S" "j < length S"
  shows "mset (arrayMove S (int i) (int j)) = mset S"
    and "length (arrayMove S (int i) (int j)) = length S"
    and "arrayMove S (int i) (int j) ! j = S ! i"
    and "take j (arrayMove S (int i) (int j)) @ drop (Suc j) (arrayMove S (int i) (int j))
           = take i S @ drop (Suc i) S"
proof -
  define R where "R = take i S @ drop (Suc i) S"
  have j: "j \<le> length R"
    using assms by (simp add: R_def)
  have S: "take i S @ S ! i # drop (Suc i) S = S"
    using assms(1) by (rule id_take_nth_drop [symmetric])
  have am: "arrayMove S (int i) (int j) = take j R @ S ! i # drop j R"
    unfolding R_def using assms by (rule arrayMove_in_range)
  have split: "mset (take j R) + mset (drop j R) = mset R"
    by (metis append_take_drop_id mset_append)
  have "mset (take j R @ S ! i # drop j R) = add_mset (S ! i) (mset R)"
    by (simp add: split)
  also have "\<dots> = mset (take i S @ S ! i # drop (Suc i) S)"
    by (simp add: R_def)
  finally show "mset (arrayMove S (int i) (int j)) = mset S"
    by (simp only: am S)
  have "length R = length S - 1"
    using assms(1) by (simp add: R_def)
  then show "length (arrayMove S (int i) (int j)) = length S"
    unfolding am using assms(1) j by simp
  show "arrayMove S (int i) (int j) ! j = S ! i"
    unfolding am using j by (simp add: nth_append)
  have "take j (take j R @ S ! i # drop j R) = take j R"
    and "drop (Suc j) (take j R @ S ! i # drop j R) = drop j R"
    using j by simp_all
  then show "take j (arrayMove S (int i) (int j)) @ drop (Suc j) (arrayMove S (int i) (int j))
      = take i S @ drop (Suc i) S"
    unfolding am by (simp add: R_def [symmetric])
qed

text \<open>
  C5. On a list of blocks (no element \<^verbatim>\<open>null\<close> or \<^verbatim>\<open>undefined\<close>) in which both ids
  occur, with \<open>i\<close> and \<open>j\<close> the indices of the first block with the moved id and of the
  first block with the target id: the result is a permutation of the list, of the same
  length; at index \<open>j\<close> it holds the block that was at index \<open>i\<close>; and without that
  block the result is the list without its \<open>i\<close>-th block, so the other blocks keep
  their relative order. The witness is the scenario of the specification: moving
  \<open>c\<close> to the position of \<open>a\<close> in \<open>[a, b, c]\<close> gives \<open>[c, a, b]\<close>.
\<close>

theorem reorder_permutation:
  assumes blocks: "\<forall>b\<in>set S. b \<noteq> JUndef \<and> b \<noteq> JNull"
    and moved: "movedId \<in> (\<lambda>b. getprop b ''id'') ` set S"
    and target: "targetId \<in> (\<lambda>b. getprop b ''id'') ` set S"
  shows "\<exists>S' i j. handleDragEnd movedId (Some targetId) S = Inr S'
           \<and> i = first_index movedId S \<and> j = first_index targetId S
           \<and> i < length S \<and> j < length S
           \<and> getprop (S ! i) ''id'' = movedId \<and> getprop (S ! j) ''id'' = targetId
           \<and> mset S' = mset S \<and> length S' = length S
           \<and> S' ! j = S ! i
           \<and> take j S' @ drop (Suc j) S' = take i S @ drop (Suc i) S"
proof -
  let ?i = "first_index movedId S" and ?j = "first_index targetId S"
  have i: "?i < length S" and j: "?j < length S"
    using moved target by (simp_all add: first_index_less)
  have ids: "getprop (S ! ?i) ''id'' = movedId" "getprop (S ! ?j) ''id'' = targetId"
    using i j by (simp_all add: first_index_nth)
  have old: "findIndex_id (Some movedId) S = Inr (int ?i)"
    and new: "findIndex_id (Some targetId) S = Inr (int ?j)"
    using i j by (simp_all add: findIndex_id_first_index [OF blocks])
  show ?thesis
  proof (cases "movedId = targetId")
    case True
    then have "handleDragEnd movedId (Some targetId) S = Inr S"
      by (simp add: handleDragEnd_def)
    with True i ids show ?thesis by simp
  next
    case False
    then have "handleDragEnd movedId (Some targetId) S = Inr (arrayMove S (int ?i) (int ?j))"
      by (simp add: handleDragEnd_def old new)
    with i j ids arrayMove_props [OF i j] show ?thesis by simp
  qed
qed

theorem reorder_permutation_witness:
  "handleDragEnd (JStr ''c'') (Some (JStr ''a'')) [blk ''a'', blk ''b'', blk ''c'']
     = Inr [blk ''c'', blk ''a'', blk ''b'']"
proof -
  let ?S = "[blk ''a'', blk ''b'', blk ''c'']"
  have ok: "\<forall>b\<in>set ?S. b \<noteq> JUndef \<and> b \<noteq> JNull"
    by (simp add: blk_def)
  have moved: "JStr ''c'' \<in> (\<lambda>b. getprop b ''id'') ` set ?S"
    and target: "JStr ''a'' \<in> (\<lambda>b. getprop b ''id'') ` set ?S"
    by (simp_all add: blk_def)
  have fi: "first_index (JStr ''c'') ?S = Suc (Suc 0)" "first_index (JStr ''a'') ?S = 0"
    by (simp_all add: first_index_def blk_def)
  from reorder_permutation [OF ok moved target]
  obtain S' i j where run: "handleDragEnd (JStr ''c'') (Some (JStr ''a'')) ?S = Inr S'"
    and i: "i = first_index (JStr ''c'') ?S" and j: "j = first_index (JStr ''a'') ?S"
    and len: "length S' = length ?S"
    and first: "S' ! j = ?S ! i"
    and rest: "take j S' @ drop (Suc j) S' = take i ?S @ drop (Suc i) ?S"
    by (elim exE conjE) (rule that; assumption)
  from len obtain x y z where S': "S' = [x, y, z]"
    by (cases S'; simp; rename_tac S2; case_tac S2; simp; rename_tac S3; case_tac S3; simp)
  from first rest have "x = blk ''c''" "[y, z] = [blk ''a'', blk ''b'']"
    unfolding i j fi S' by simp_all
  with run S' show ?thesis by simp
qed

lemma findIndex_examples:
  "findIndex_id (Some (JStr ''z'')) [blk ''a'', blk ''b'', blk ''c''] = Inr (- 1)"
  "findIndex_id (Some (JStr ''a'')) [blk ''a'', blk ''b'', blk ''c''] = Inr 0"
  "findIndex_id None [blk ''a'', blk ''b'', blk ''c''] = Inl TypeError"
  by (simp_all add: readprop_def blk_def)

lemma arrayMove_examples:
  "arrayMove [a, b, c] (- 1) 0 = [c, a, b]"
  "arrayMove [a, b, c] 0 (- 1) = [b, c, a]"
  by (simp_all add: arrayMove_def splice_start_def)

text \<open>
  C4. With the moved id equal to the target id the list is returned as it is.
\<close>

lemma handleDragEnd_same_id: "handleDragEnd i (Some i) S = Inr S"
  by (simp add: handleDragEnd_def)

text \<open>
  C4. An id that is absent from the list is not a no-op: \<^verbatim>\<open>findIndex\<close> gives \<open>-1\<close>,
  and \<^verbatim>\<open>arrayMove\<close> reads it as the last position. With the moved id absent the last
  block goes to the position of the target; with the target id absent the moved block
  goes to the end; and with no target at all (\<^verbatim>\<open>over\<close> is \<^verbatim>\<open>null\<close>) the handler throws
  on this list.
\<close>

theorem handleDragEnd_absent_id:
  "handleDragEnd (JStr ''z'') (Some (JStr ''a'')) [blk ''a'', blk ''b'', blk ''c'']
     = Inr [blk ''c'', blk ''a'', blk ''b'']
   \<and> handleDragEnd (JStr ''a'') (Some (JStr ''z'')) [blk ''a'', blk ''b'', blk ''c'']
     = Inr [blk ''b'', blk ''c'', blk ''a'']
   \<and> handleDragEnd (JStr ''a'') None [blk ''a'', blk ''b'', blk ''c''] = Inl TypeError"
  by (simp add: handleDragEnd_def findIndex_examples arrayMove_examples del: findIndex_id.simps)

text \<open>
  On the empty list no callback runs, so nothing throws even with \<^verbatim>\<open>over\<close> null: both
  indices are \<open>-1\<close>, and \<^verbatim>\<open>arrayMove\<close> inserts the \<^verbatim>\<open>undefined\<close> it found at index 0
  of nothing.
\<close>

lemma handleDragEnd_empty_list: "handleDragEnd (JStr ''a'') None [] = Inr [JUndef]"
  by (simp add: handleDragEnd_def arrayMove_def splice_start_def)

section \<open>Column count of a columns block\<close>

text \<open>
  \<^verbatim>\<open>v[i]\<close> for an index \<open>i\<close>: an array and a string give the element at \<open>i\<close>, an
  object its property named by the numeral, \<^verbatim>\<open>undefined\<close> where there is none;
  \<^verbatim>\<open>null\<close> and \<^verbatim>\<open>undefined\<close> throw.
\<close>

definition index_read :: "jsval \<Rightarrow> nat \<Rightarrow> error + jsval" where
  "index_read v i =
     (case v of
        JUndef \<Rightarrow> Inl TypeError
      | JNull \<Rightarrow> Inl TypeError
      | JArr xs \<Rightarrow> Inr (if i < length xs then xs ! i else JUndef)
      | JStr s \<Rightarrow> Inr (if i < length s then JStr [s ! i] else JUndef)
      | JObj kvs \<Rightarrow> Inr (getprop v (show_nat i))
      | _ \<Rightarrow> Inr JUndef)"

text \<open>
  The \<^verbatim>\<open>onChange\<close> handler of the column-count \<^verbatim>\<open>select\<close> in \<^verbatim>\<open>ColumnsBlock\<close>, given
  the number \<^verbatim>\<open>cols = +e.target.value\<close> (the options are 2, 3 and 4); the result is
  the block passed to \<^verbatim>\<open>onUpdate\<close>:
  \<^verbatim>\<open>
  const children = Array(cols).fill(null).map((_, i) => block.children[i] || []);
  onUpdate({ ...block, columns: cols, children });
  \<close>
  \<^verbatim>\<open>Array(cols)\<close> throws a \<^verbatim>\<open>RangeError\<close> unless \<open>0 \<le> cols < 2^32\<close>.
\<close>

definition ColumnsBlock_onChange :: "int \<Rightarrow> obj \<Rightarrow> error + obj" where
  "ColumnsBlock_onChange cols block =
     (if cols < 0 \<or> 2 ^ 32 \<le> cols then Inl RangeError
      else
        (case collect (map (\<lambda>i. case index_read (getprop (JObj block) ''children'') i of
                                  Inl e \<Rightarrow> Inl e
                                | Inr c \<Rightarrow> Inr (if truthy c then c else JArr []))
                        [0..<nat cols]) of
           Inl e \<Rightarrow> Inl e
         | Inr children \<Rightarrow>
             Inr (set_prop ''children'' (JArr children)
                   (set_prop ''columns'' (JNum cols) block))))"

text \<open>A columns block with the given columns, for the examples.\<close>

definition columns_block :: "jsval list \<Rightarrow> obj" where
  "columns_block cs =
     [(''id'', JNum 9), (''type'', JStr ''columns''), (''size'', JStr ''full''),
      (''columns'', JNum (int (length cs))), (''children'', JArr cs)]"

lemma collect_map_Inr: "collect (map (\<lambda>i. Inr (f i)) xs) = Inr (map f xs)"
  by (induction xs) simp_all

lemma isArray_truthy: "isArray c \<Longrightarrow> truthy c"
  by (cases c) simp_all

text \<open>
  C6. For a columns block whose \<^verbatim>\<open>children\<close> is an array of arrays and a column count
  that \<^verbatim>\<open>Array\<close> accepts: the handler returns an updated block; read back from it,
  \<^verbatim>\<open>columns\<close> is the new count and \<^verbatim>\<open>children\<close> is an array of that length, in which
  a column at an index the old array had is the old column and every other column is
  the empty array; all columns are arrays again, and every other property of the block
  is as before.
\<close>

theorem columns_resize:
  assumes children: "getprop (JObj block) ''children'' = JArr cs"
    and columns: "\<forall>c\<in>set cs. isArray c"
    and cols: "0 \<le> cols" "cols < 2 ^ 32"
  shows "\<exists>block' cs'. ColumnsBlock_onChange cols block = Inr block'
           \<and> block' = set_prop ''children'' (JArr cs') (set_prop ''columns'' (JNum cols) block)
           \<and> getprop (JObj block') ''children'' = JArr cs'
           \<and> getprop (JObj block') ''columns'' = JNum cols
           \<and> (\<forall>k. k \<noteq> ''children'' \<and> k \<noteq> ''columns'' \<longrightarrow>
                 getprop (JObj block') k = getprop (JObj block) k)
           \<and> int (length cs') = cols
           \<and> (\<forall>i<length cs'. cs' ! i = (if i < length cs then cs ! i else JArr []))
           \<and> (\<forall>c\<in>set cs'. isArray c)"
proof -
  let ?f = "\<lambda>i. if i < length cs then cs ! i else JArr []"
  let ?cs' = "map ?f [0..<nat cols]"
  let ?block' = "set_prop ''children'' (JArr ?cs') (set_prop ''columns'' (JNum cols) block)"
  have "(case index_read (JArr cs) i of Inl e \<Rightarrow> Inl e
         | Inr c \<Rightarrow> Inr (if truthy c then c else JArr [])) = Inr (?f i)" for i
    using columns by (simp add: index_read_def isArray_truthy)
  then have run: "ColumnsBlock_onChange cols block = Inr ?block'"
    using cols unfolding ColumnsBlock_onChange_def children
    by (simp add: collect_map_Inr)
  have read: "getprop (JObj ?block') ''children'' = JArr ?cs'"
    "getprop (JObj ?block') ''columns'' = JNum cols"
    by (simp_all del: getprop.simps)
  have frame: "\<forall>k. k \<noteq> ''children'' \<and> k \<noteq> ''columns'' \<longrightarrow>
      getprop (JObj ?block') k = getprop (JObj block) k"
    by (simp del: getprop.simps)
  have len: "int (length ?cs') = cols"
    using cols by simp
  have nth: "\<forall>i<length ?cs'. ?cs' ! i = ?f i"
    by simp
  have arrays: "\<forall>c\<in>set ?cs'. isArray c"
    using columns by auto
  from run read frame len nth arrays show ?thesis
    by (intro exI [of _ ?block'] exI [of _ ?cs'] conjI) (rule refl | assumption)+
qed

theorem columns_resize_witness:
  "\<exists>block'. ColumnsBlock_onChange 3 (columns_block [JArr [para_block 1 ''x''], JArr []])
       = Inr block'
     \<and> getprop (JObj block') ''children'' = JArr [JArr [para_block 1 ''x''], JArr [], JArr []]
     \<and> getprop (JObj block') ''columns'' = JNum 3
     \<and> getprop (JObj block') ''id'' = JNum 9"
proof -
  let ?cs = "[JArr [para_block 1 ''x''], JArr []]"
  have children: "getprop (JObj (columns_block ?cs)) ''children'' = JArr ?cs"
    by (simp add: columns_block_def)
  have arrays: "\<forall>c\<in>set ?cs. isArray c"
    by simp
  have id9: "getprop (JObj (columns_block ?cs)) ''id'' = JNum 9"
    by (simp add: columns_block_def)
  from columns_resize [OF children arrays, of 3]
  obtain block' cs' where run: "ColumnsBlock_onChange 3 (columns_block ?cs) = Inr block'"
    and ch: "getprop (JObj block') ''children'' = JArr cs'"
    and co: "getprop (JObj block') ''columns'' = JNum 3"
    and frame: "\<forall>k. k \<noteq> ''children'' \<and> k \<noteq> ''columns'' \<longrightarrow>
        getprop (JObj block') k = getprop (JObj (columns_block ?cs)) k"
    and len: "int (length cs') = 3"
    and nth: "\<forall>i<length cs'. cs' ! i = (if i < length ?cs then ?cs ! i else JArr [])"
    by auto
  from len have "length cs' = Suc (Suc (Suc 0))" by simp
  then obtain x y z where cs': "cs' = [x, y, z]"
    by (cases cs'; simp; rename_tac S2; case_tac S2; simp; rename_tac S3; case_tac S3; simp)
  note at = nth [unfolded cs', rule_format]
  have "x = JArr [para_block 1 ''x'']" "y = JArr []" "z = JArr []"
    using at [of 0] at [of "Suc 0"] at [of "Suc (Suc 0)"] by simp_all
  then have "cs' = [JArr [para_block 1 ''x''], JArr [], JArr []]"
    unfolding cs' by simp
  moreover from frame have "getprop (JObj block') ''id'' = getprop (JObj (columns_block ?cs)) ''id''"
    by simp
  ultimately show ?thesis
    using run ch co id9 by simp
qed

text \<open>The same resize from two to three columns, evaluated.\<close>

lemma columns_resize_example:
  "ColumnsBlock_onChange 3 (columns_block [JArr [para_block 1 ''x''], JArr []]) =
     Inr [(''id'', JNum 9), (''type'', JStr ''columns''), (''size'', JStr ''full''),
          (''columns'', JNum 3),
          (''children'', JArr [JArr [para_block 1 ''x''], JArr [], JArr []])]"
  by (simp add: ColumnsBlock_onChange_def columns_block_def index_read_def upt_rec)

end
